theory Spec2Isabelle
  imports Complex_Main "HOL-Library.Multiset"
begin

section \<open>The work engine prototype (prototype.py)\<close>

text \<open>
  The prototype distributes a work list over an MPI worker pool. Every entry of the
  work list is a Python dictionary with the keys \<open>engine\<close> and \<open>benchmark\<close>; a worker
  runs \<open>perform_work\<close> on it, which looks the engine up in the module-level table
  \<open>ENGINES\<close>, calls it on the benchmark and stores what it returns under the key
  \<open>output\<close> of the very dictionary it was given.
\<close>

subsection \<open>Data\<close>

text \<open>
  \<open>dict[str, str]\<close>: a finite map from keys to values. The engines of the prototype
  return strings, so the values of a result dictionary are strings as well.
\<close>

type_synonym dict = "string \<rightharpoonup> string"

text \<open>
  The exceptions the code can raise: \<open>KeyError\<close> from a dictionary subscript (the
  missing key is its argument), and whatever an engine raises.
\<close>

datatype error = KeyError string | EngineFault string

text \<open>
  An engine is called with the benchmark identifier. The engines of the prototype
  also draw \<open>random.random()\<close> to simulate work; the draw is an explicit argument.
  An engine returns a value or raises.
\<close>

type_synonym engine = "real \<Rightarrow> string \<Rightarrow> error + string"

type_synonym registry = "string \<rightharpoonup> engine"

text \<open>
  What \<open>perform_work\<close> reads from its ambient MPI context: \<open>comm.Get_rank()\<close>,
  \<open>comm.Get_size()\<close> of the workers' communicator and \<open>MPI.Get_processor_name()\<close>.
\<close>

record worker =
  w_rank :: nat
  w_size :: nat
  w_name :: string

text \<open>
  Python dictionaries are mutable objects handled by reference. A process is modelled
  by its object store (every address holds a dictionary) and by the lines it has
  written with \<open>tqdm.write\<close>.
\<close>

type_synonym addr = nat

record proc =
  heap :: "addr \<Rightarrow> dict"
  stdout :: "string list"

subsection \<open>The work list\<close>

text \<open>The dictionary literal \<open>{"engine": e, "benchmark": b}\<close>.\<close>

definition work_item :: "string \<Rightarrow> string \<Rightarrow> dict" where
  "work_item e b = [''engine'' \<mapsto> e, ''benchmark'' \<mapsto> b]"

text \<open>The three base work definitions of \<open>parse_ref_setup\<close>.\<close>

definition sample :: "dict list" where
  "sample = [work_item ''PMP'' ''AMOC'',
             work_item ''ESMValTool'' ''TCRE'',
             work_item ''ILAMB'' ''nbp'']"

text \<open>
  \<open>random.sample(sample, 20, counts=[20, 20, 20])\<close> draws 20 entries without
  replacement from 20 copies of each base entry, so every sequence of 20 indices below
  3 can come out. The indices drawn are the argument \<open>picks\<close>; the file name is not
  read.
\<close>

definition parse_ref_setup :: "nat list \<Rightarrow> dict list option" where
  "parse_ref_setup picks =
     (if length picks = 20 \<and> list_all (\<lambda>i. i < 3) picks
      then Some (map (\<lambda>i. sample ! i) picks) else None)"

subsection \<open>The trace line\<close>

text \<open>Decimal rendering of a non-negative integer, as \<open>format\<close> prints it.\<close>

definition digit_char :: "nat \<Rightarrow> char" where
  "digit_char d = char_of (48 + d)"

fun str_nat :: "nat \<Rightarrow> string" where
  "str_nat n = (if n < 10 then [digit_char n]
                else str_nat (n div 10) @ [digit_char (n mod 10)])"

declare str_nat.simps [simp del]

text \<open>
  The format specifications \<open>:>4\<close>, \<open>:>10\<close> (strings) and \<open>:3\<close> (integers) pad on
  the left with blanks up to the width and never truncate.
\<close>

definition rjust :: "nat \<Rightarrow> string \<Rightarrow> string" where
  "rjust width s = replicate (width - length s) CHR '' '' @ s"

text \<open>
  \<open>f"{instructions['benchmark']:>4} {instructions['engine']:>10} {rank:3} of {size:3} {name}"\<close>
\<close>

definition trace_line :: "string \<Rightarrow> string \<Rightarrow> nat \<Rightarrow> nat \<Rightarrow> string \<Rightarrow> string" where
  "trace_line benchmark engine rank sz name =
     rjust 4 benchmark @ '' '' @ rjust 10 engine @ '' '' @ rjust 3 (str_nat rank)
       @ '' of '' @ rjust 3 (str_nat sz) @ '' '' @ name"

subsection \<open>The engines\<close>

text \<open>
  Each engine sleeps for \<open>random.random() * 5\<close> seconds and returns the string
  \<open>"_results_"\<close>. The sleep takes time and changes nothing else.
\<close>

definition engine_ilamb :: engine where
  "engine_ilamb r benchmark = Inr ''_results_''"

definition engine_esmvaltool :: engine where
  "engine_esmvaltool r benchmark = Inr ''_results_''"

definition engine_pmp :: engine where
  "engine_pmp r benchmark = Inr ''_results_''"

definition ENGINES :: registry where
  "ENGINES = [''ILAMB'' \<mapsto> engine_ilamb, ''PMP'' \<mapsto> engine_pmp,
              ''ESMValTool'' \<mapsto> engine_esmvaltool]"

subsection \<open>perform_work\<close>

text \<open>
  \<open>instructions\<close> is the address of the dictionary. The f-string subscripts
  \<open>'benchmark'\<close> and then \<open>'engine'\<close> before anything is written, so a missing key
  raises before the trace line. The line is written before the engine is looked up.
  \<open>ENGINES[instructions["engine"]]\<close> raises \<open>KeyError\<close> with the engine identifier
  when it is not a key of the table; an exception of the engine is not caught.
  The dictionary is not written between the reads, so the second subscripts of
  \<open>"engine"\<close> and \<open>"benchmark"\<close> give the values read for the trace line.
  \<open>instructions.update({"output": out})\<close> writes the key \<open>output\<close> of the object at
  \<open>instructions\<close>, and that same object is returned.
\<close>

definition perform_work ::
  "registry \<Rightarrow> worker \<Rightarrow> real \<Rightarrow> addr \<Rightarrow> proc \<Rightarrow> (error + addr) \<times> proc" where
  "perform_work engines w r instructions s =
     (case heap s instructions ''benchmark'' of
        None \<Rightarrow> (Inl (KeyError ''benchmark''), s)
      | Some benchmark \<Rightarrow>
     (case heap s instructions ''engine'' of
        None \<Rightarrow> (Inl (KeyError ''engine''), s)
      | Some eng \<Rightarrow>
          let s1 = s\<lparr>stdout := stdout s @
                      [trace_line benchmark eng (w_rank w) (w_size w) (w_name w)]\<rparr>
          in (case engines eng of
                None \<Rightarrow> (Inl (KeyError eng), s1)
              | Some f \<Rightarrow>
                 (case f r benchmark of
                    Inl err \<Rightarrow> (Inl err, s1)
                  | Inr out \<Rightarrow>
                      (Inr instructions,
                       s1\<lparr>heap := (heap s1)(instructions :=
                                     (heap s1 instructions)(''output'' \<mapsto> out))\<rparr>)))))"

subsection \<open>The pool\<close>

text \<open>
  \<open>MPIPoolExecutor.map\<close> belongs to the mpi4py library. Its documented contract is
  that of \<open>concurrent.futures.Executor.map\<close>: every element of the iterable is
  pickled and sent to some worker process, the function runs there on the unpickled
  copy, what it returns is pickled and sent back, and the iterator yields the results
  in the order of the iterable; a call that raised re-raises its exception when its
  result is taken from the iterator.

  A remote call therefore runs \<open>perform_work\<close> in the worker's own store, on a fresh
  object holding a copy of the dictionary, and ships back the contents of the object
  returned. The lines the worker wrote during the call come second.
\<close>

definition fresh_proc :: "dict \<Rightarrow> proc" where
  "fresh_proc d = \<lparr>heap = (\<lambda>_. Map.empty)(0 := d), stdout = []\<rparr>"

definition remote_call ::
  "registry \<Rightarrow> worker \<Rightarrow> real \<Rightarrow> dict \<Rightarrow> (error + dict) \<times> string list" where
  "remote_call engines w r d =
     (let (res, s1) = perform_work engines w r 0 (fresh_proc d)
      in (case res of Inl err \<Rightarrow> Inl err | Inr a \<Rightarrow> Inr (heap s1 a), stdout s1))"

text \<open>
  Which worker takes the i-th item and what its engine draws are not decided by the
  program: they are the arguments \<open>sched\<close> and \<open>draws\<close>. The outcome of the i-th call
  is the i-th element.
\<close>

definition executor_map ::
  "registry \<Rightarrow> (nat \<Rightarrow> worker) \<Rightarrow> (nat \<Rightarrow> real) \<Rightarrow> dict list
     \<Rightarrow> ((error + dict) \<times> string list) list" where
  "executor_map engines sched draws work_list =
     map (\<lambda>i. remote_call engines (sched i) (draws i) (work_list ! i))
         [0 ..< length work_list]"

text \<open>
  \<open>list(results)\<close> takes the results from the iterator one by one; the first call
  that raised ends it with that exception, and no list is built.
\<close>

fun collect :: "(error + 'a) list \<Rightarrow> error + 'a list" where
  "collect [] = Inr []"
| "collect (Inl err # xs) = Inl err"
| "collect (Inr x # xs) = (case collect xs of Inl err \<Rightarrow> Inl err | Inr ys \<Rightarrow> Inr (x # ys))"

text \<open>The main block: map \<open>perform_work\<close> over the work list and list the results.\<close>

definition run ::
  "registry \<Rightarrow> (nat \<Rightarrow> worker) \<Rightarrow> (nat \<Rightarrow> real) \<Rightarrow> dict list \<Rightarrow> error + dict list" where
  "run engines sched draws work_list =
     collect (map fst (executor_map engines sched draws work_list))"

subsection \<open>Sequential execution\<close>

text \<open>
  The reference behaviour a pool of size one is compared with: \<open>perform_work\<close> is
  called on the entries of the work list one after the other, in submission order, in
  one process, as \<open>[perform_work(x) for x in work_list]\<close> does. The work list is a
  list of references (the same object may occur more than once, as in the list
  \<open>random.sample\<close> builds); the first exception ends the loop. The i-th call uses
  the i-th draw.
\<close>

fun sequential_run ::
  "registry \<Rightarrow> worker \<Rightarrow> (nat \<Rightarrow> real) \<Rightarrow> nat \<Rightarrow> addr list \<Rightarrow> proc
     \<Rightarrow> (error + addr list) \<times> proc" where
  "sequential_run engines w draws i [] s = (Inr [], s)"
| "sequential_run engines w draws i (a # as) s =
     (case perform_work engines w (draws i) a s of
        (Inl err, s1) \<Rightarrow> (Inl err, s1)
      | (Inr a', s1) \<Rightarrow>
          (case sequential_run engines w draws (Suc i) as s1 of
             (Inl err, s2) \<Rightarrow> (Inl err, s2)
           | (Inr rs, s2) \<Rightarrow> (Inr (a' # rs), s2)))"

text \<open>The contents of the results once the loop is over.\<close>

definition sequential_results ::
  "registry \<Rightarrow> worker \<Rightarrow> (nat \<Rightarrow> real) \<Rightarrow> addr list \<Rightarrow> proc \<Rightarrow> error + dict list" where
  "sequential_results engines w draws refs s =
     (case sequential_run engines w draws 0 refs s of
        (Inl err, s') \<Rightarrow> Inl err
      | (Inr rs, s') \<Rightarrow> Inr (map (heap s') rs))"

text \<open>The only worker of a pool of size one.\<close>

definition pool1 :: "string \<Rightarrow> worker" where
  "pool1 host = \<lparr>w_rank = 0, w_size = 1, w_name = host\<rparr>"

subsection \<open>Notions used to state the properties\<close>

text \<open>The (engine, benchmark) pair a dictionary carries.\<close>

definition pair_of :: "dict \<Rightarrow> string option \<times> string option" where
  "pair_of d = (d ''engine'', d ''benchmark'')"

text \<open>
  A work item that \<open>perform_work\<close> can serve with the table \<open>engines\<close>: it carries a
  benchmark and an engine identifier, and the identifier is a key of the table.
\<close>

definition registered :: "registry \<Rightarrow> dict \<Rightarrow> bool" where
  "registered engines d =
     (case d ''benchmark'' of
        None \<Rightarrow> False
      | Some b \<Rightarrow> (case d ''engine'' of None \<Rightarrow> False | Some e \<Rightarrow> engines e \<noteq> None))"

text \<open>
  The success or failure kind of a result: a result is a failure when it carries an
  \<open>error\<close> field. The composition of a result list collects engine, benchmark and
  kind of every result.
\<close>

datatype kind = Success | Failure

definition kind_of :: "dict \<Rightarrow> kind" where
  "kind_of d = (if d ''error'' = None then Success else Failure)"

definition composition :: "dict list \<Rightarrow> (string option \<times> string option \<times> kind) multiset" where
  "composition rs = mset (map (\<lambda>d. (d ''engine'', d ''benchmark'', kind_of d)) rs)"


subsection \<open>Concrete inputs\<close>

text \<open>
  A worker, a schedule that gives every item to the same worker, a sequence of draws,
  and a table with an engine that raises, for evaluating the definitions.
\<close>

definition worker0 :: worker where
  "worker0 = \<lparr>w_rank = 1, w_size = 9, w_name = ''andes18.olcf.ornl.gov''\<rparr>"

definition const_sched :: "worker \<Rightarrow> nat \<Rightarrow> worker" where
  "const_sched w i = w"

definition zero_draws :: "nat \<Rightarrow> real" where
  "zero_draws i = 0"

definition half_draws :: "nat \<Rightarrow> real" where
  "half_draws i = 1 / 2"

definition engine_boom :: engine where
  "engine_boom r benchmark = Inl (EngineFault ''boom'')"

definition FAULTY :: registry where
  "FAULTY = [''BOOM'' \<mapsto> engine_boom]"

text \<open>A store with two work items.\<close>

definition store2 :: proc where
  "store2 = \<lparr>heap = (\<lambda>_. Map.empty)(0 := work_item ''PMP'' ''AMOC'', 1 := work_item ''ILAMB'' ''nbp''),
             stdout = []\<rparr>"

section \<open>Auxiliary facts\<close>

lemma remote_call_fst:
  "fst (remote_call E w r d) =
     (case d ''benchmark'' of
        None \<Rightarrow> Inl (KeyError ''benchmark'')
      | Some b \<Rightarrow>
          (case d ''engine'' of
             None \<Rightarrow> Inl (KeyError ''engine'')
           | Some e \<Rightarrow>
               (case E e of
                  None \<Rightarrow> Inl (KeyError e)
                | Some f \<Rightarrow>
                    (case f r b of Inl err \<Rightarrow> Inl err
                                 | Inr out \<Rightarrow> Inr (d(''output'' \<mapsto> out))))))"
  by (simp add: remote_call_def fresh_proc_def perform_work_def Let_def split: option.splits sum.splits)

lemma remote_call_Inr_D:
  assumes "fst (remote_call E w r d) = Inr x"
  shows "\<exists>b e f out. d ''benchmark'' = Some b \<and> d ''engine'' = Some e \<and> E e = Some f
            \<and> f r b = Inr out \<and> x = d(''output'' \<mapsto> out)"
  using assms unfolding remote_call_fst by (auto split: option.splits sum.splits)

lemma executor_map_Cons:
  "executor_map E sched draws (d # ds) =
     remote_call E (sched 0) (draws 0) d # executor_map E (sched \<circ> Suc) (draws \<circ> Suc) ds"
  by (simp add: executor_map_def upt_conv_Cons map_Suc_upt[symmetric] del: upt_Suc)

lemma run_Nil: "run E sched draws [] = Inr []"
  by (simp add: run_def executor_map_def)

lemma run_Cons:
  "run E sched draws (d # ds) =
     (case fst (remote_call E (sched 0) (draws 0) d) of
        Inl err \<Rightarrow> Inl err
      | Inr x \<Rightarrow> (case run E (sched \<circ> Suc) (draws \<circ> Suc) ds of
                     Inl err \<Rightarrow> Inl err | Inr ys \<Rightarrow> Inr (x # ys)))"
  by (simp add: run_def executor_map_Cons split: sum.splits)

lemma collect_map_Inr: "collect (map Inr ys) = Inr ys"
  by (induction ys) auto

lemma collect_Inr_D: "collect xs = Inr ys \<Longrightarrow> xs = map Inr ys"
proof (induction xs arbitrary: ys)
  case Nil
  then show ?case by auto
next
  case (Cons x xs)
  then show ?case by (cases x) (auto split: sum.splits)
qed

lemma collect_Inr_iff: "collect xs = Inr ys \<longleftrightarrow> xs = map Inr ys"
  using collect_map_Inr collect_Inr_D by blast

lemma run_Inr_iff:
  "run E sched draws items = Inr rs \<longleftrightarrow>
     length rs = length items \<and>
     (\<forall>i<length items. fst (remote_call E (sched i) (draws i) (items ! i)) = Inr (rs ! i))"
proof -
  let ?f = "\<lambda>i. fst (remote_call E (sched i) (draws i) (items ! i))"
  have "run E sched draws items = Inr rs \<longleftrightarrow> map ?f [0 ..< length items] = map Inr rs"
    by (simp add: run_def collect_Inr_iff executor_map_def comp_def)
  also have "\<dots> \<longleftrightarrow> length rs = length items \<and> (\<forall>i<length items. ?f i = Inr (rs ! i))"
    by (subst list_eq_iff_nth_eq) auto
  finally show ?thesis .
qed

lemma run_Inr_nth:
  assumes "run E sched draws items = Inr rs" and "i < length items"
  shows "\<exists>b e f out. (items ! i) ''benchmark'' = Some b \<and> (items ! i) ''engine'' = Some e
           \<and> E e = Some f \<and> f (draws i) b = Inr out
           \<and> rs ! i = (items ! i)(''output'' \<mapsto> out)"
proof -
  from assms have "fst (remote_call E (sched i) (draws i) (items ! i)) = Inr (rs ! i)"
    by (simp add: run_Inr_iff)
  then show ?thesis by (rule remote_call_Inr_D)
qed

lemma perform_work_cases:
  assumes "heap s a ''benchmark'' = Some b" and "heap s a ''engine'' = Some e"
  shows "perform_work E w r a s =
    (case E e of
       None \<Rightarrow> (Inl (KeyError e),
                 s\<lparr>stdout := stdout s @ [trace_line b e (w_rank w) (w_size w) (w_name w)]\<rparr>)
     | Some f \<Rightarrow>
        (case f r b of
           Inl err \<Rightarrow> (Inl err,
                 s\<lparr>stdout := stdout s @ [trace_line b e (w_rank w) (w_size w) (w_name w)]\<rparr>)
         | Inr out \<Rightarrow> (Inr a,
                 s\<lparr>stdout := stdout s @ [trace_line b e (w_rank w) (w_size w) (w_name w)],
                    heap := (heap s)(a := (heap s a)(''output'' \<mapsto> out))\<rparr>)))"
  using assms by (simp add: perform_work_def Let_def split: option.splits sum.splits)

lemma run_Inl_if_not_Inr:
  "(\<And>rs. run E sched draws items \<noteq> Inr rs) \<Longrightarrow> \<exists>err. run E sched draws items = Inl err"
  by (cases "run E sched draws items") auto

lemma ENGINES_constant:
  assumes "ENGINES e = Some f"
  shows "f r b = Inr ''_results_''"
  using assms
  by (auto simp: ENGINES_def engine_ilamb_def engine_pmp_def engine_esmvaltool_def
           split: if_splits)

lemma remote_call_ENGINES_registered:
  assumes "registered ENGINES d"
  shows "fst (remote_call ENGINES w r d) = Inr (d(''output'' \<mapsto> ''_results_''))"
  using assms
  by (auto simp: registered_def remote_call_fst ENGINES_constant split: option.splits)

lemma remote_call_ENGINES_indep:
  "fst (remote_call ENGINES w r d) = fst (remote_call ENGINES w' r' d)"
  by (auto simp: remote_call_fst ENGINES_constant split: option.splits)

lemma run_ENGINES_registered:
  assumes "list_all (registered ENGINES) items"
  shows "run ENGINES sched draws items = Inr (map (\<lambda>d. d(''output'' \<mapsto> ''_results_'')) items)"
  unfolding run_Inr_iff
  using assms by (simp add: list_all_length remote_call_ENGINES_registered)

lemma run_ENGINES_indep:
  "run ENGINES sched1 draws1 items = run ENGINES sched2 draws2 items"
proof -
  have "map fst (executor_map ENGINES sched1 draws1 items) =
        map fst (executor_map ENGINES sched2 draws2 items)"
    unfolding executor_map_def map_map comp_def
    by (rule map_cong [OF refl]) (rule remote_call_ENGINES_indep)
  then show ?thesis by (simp add: run_def)
qed

lemma run_Inr_fields:
  assumes "run E sched draws items = Inr rs" and "i < length items" and "k \<noteq> ''output''"
  shows "(rs ! i) k = (items ! i) k"
proof -
  from run_Inr_nth [OF assms(1,2)] obtain out where "rs ! i = (items ! i)(''output'' \<mapsto> out)"
    by blast
  with assms(3) show ?thesis by simp
qed

lemma run_Inr_length:
  "run E sched draws items = Inr rs \<Longrightarrow> length rs = length items"
  by (simp add: run_Inr_iff)

lemma perform_work_remote:
  assumes "perform_work E w r a s = (res, s1)"
  shows "case res of
           Inl err \<Rightarrow> fst (remote_call E w' r (heap s a)) = Inl err \<and> heap s1 = heap s
         | Inr a' \<Rightarrow> a' = a \<and> fst (remote_call E w' r (heap s a)) = Inr (heap s1 a)
                      \<and> heap s1 = (heap s)(a := heap s1 a)"
  using assms unfolding remote_call_fst
  by (auto simp: perform_work_def Let_def split: option.splits sum.splits)

lemma perform_work_Inl:
  assumes "perform_work E w r a s = (Inl err, s1)"
  shows "fst (remote_call E w' r (heap s a)) = Inl err" and "heap s1 = heap s"
  using perform_work_remote [OF assms, of w'] by simp_all

lemma perform_work_Inr:
  assumes "perform_work E w r a s = (Inr a', s1)"
  shows "a' = a" and "fst (remote_call E w' r (heap s a)) = Inr (heap s1 a)"
    and "heap s1 = (heap s)(a := heap s1 a)"
  using perform_work_remote [OF assms, of w'] by simp_all

lemma remote_call_ENGINES_Inr:
  assumes "fst (remote_call ENGINES w r d) = Inr x"
  shows "x = d(''output'' \<mapsto> ''_results_'')"
  using remote_call_Inr_D [OF assms] ENGINES_constant by fastforce

lemma remote_call_ENGINES_output:
  "fst (remote_call ENGINES w r (d(''output'' \<mapsto> ''_results_''))) = fst (remote_call ENGINES w' r' d)"
  by (auto simp: remote_call_fst ENGINES_constant split: option.splits)

lemma run_ENGINES_cong:
  assumes "length ys = length xs"
    and "\<And>j. j < length xs \<Longrightarrow> ys ! j = xs ! j \<or> ys ! j = (xs ! j)(''output'' \<mapsto> ''_results_'')"
  shows "run ENGINES sched draws ys = run ENGINES sched' draws' xs"
proof -
  have "map fst (executor_map ENGINES sched draws ys) = map fst (executor_map ENGINES sched' draws' xs)"
  proof (rule nth_equalityI)
    show "length (map fst (executor_map ENGINES sched draws ys)) =
          length (map fst (executor_map ENGINES sched' draws' xs))"
      by (simp add: executor_map_def assms(1))
  next
    fix j assume "j < length (map fst (executor_map ENGINES sched draws ys))"
    then have j: "j < length xs" by (simp add: executor_map_def assms(1))
    from assms(2) [OF j]
    have "fst (remote_call ENGINES (sched j) (draws j) (ys ! j)) =
          fst (remote_call ENGINES (sched' j) (draws' j) (xs ! j))"
      using remote_call_ENGINES_output remote_call_ENGINES_indep by metis
    with j show "map fst (executor_map ENGINES sched draws ys) ! j =
                 map fst (executor_map ENGINES sched' draws' xs) ! j"
      by (simp add: executor_map_def assms(1))
  qed
  then show ?thesis by (simp add: run_def)
qed

lemma sequential_run_frame:
  assumes "sequential_run E w draws i refs s = (res, s')" and "a \<notin> set refs"
  shows "heap s' a = heap s a"
  using assms
proof (induction refs arbitrary: i s res s')
  case Nil
  then show ?case by simp
next
  case (Cons x xs)
  obtain r1 s1 where p: "perform_work E w (draws i) x s = (r1, s1)"
    by (cases "perform_work E w (draws i) x s")
  show ?case
  proof (cases r1)
    case (Inl err)
    with Cons.prems p have "s' = s1" by simp
    with perform_work_Inl(2) [OF p [unfolded Inl]] show ?thesis by simp
  next
    case (Inr a')
    obtain r2 s2 where q: "sequential_run E w draws (Suc i) xs s1 = (r2, s2)"
      by (cases "sequential_run E w draws (Suc i) xs s1")
    from Cons.prems p q Inr have s': "s' = s2" by (auto split: sum.splits)
    from Cons.prems(2) have "a \<notin> set xs" "a \<noteq> x" by auto
    from Cons.IH [OF q \<open>a \<notin> set xs\<close>] have "heap s2 a = heap s1 a" .
    moreover from perform_work_Inr(3) [OF p [unfolded Inr]] \<open>a \<noteq> x\<close> have "heap s1 a = heap s a"
      by (metis fun_upd_other)
    ultimately show ?thesis using s' by simp
  qed
qed

lemma sequential_run_distinct:
  assumes "sequential_run E w draws i refs s = (res, s')" and "distinct refs"
  shows "run E sched (\<lambda>j. draws (i + j)) (map (heap s) refs) =
           (case res of Inl err \<Rightarrow> Inl err | Inr rs \<Rightarrow> Inr (map (heap s') rs))"
  using assms
proof (induction refs arbitrary: i s res s' sched)
  case Nil
  then show ?case by (auto simp: run_Nil)
next
  case (Cons x xs)
  obtain r1 s1 where p: "perform_work E w (draws i) x s = (r1, s1)"
    by (cases "perform_work E w (draws i) x s")
  show ?case
  proof (cases r1)
    case (Inl err)
    with Cons.prems p have res: "res = Inl err" by simp
    from perform_work_Inl(1) [OF p [unfolded Inl], of "sched 0"] show ?thesis
      by (simp add: run_Cons res)
  next
    case (Inr a')
    note pw = perform_work_Inr [OF p [unfolded Inr]]
    obtain r2 s2 where q: "sequential_run E w draws (Suc i) xs s1 = (r2, s2)"
      by (cases "sequential_run E w draws (Suc i) xs s1")
    from Cons.prems(2) have x: "x \<notin> set xs" and d: "distinct xs" by auto
    have tl: "map (heap s1) xs = map (heap s) xs"
    proof (rule map_cong [OF refl])
      fix y assume "y \<in> set xs"
      with x have "y \<noteq> x" by auto
      with pw(3) show "heap s1 y = heap s y" by (metis fun_upd_other)
    qed
    from Cons.IH [OF q d, of "\<lambda>j. sched (Suc j)"]
    have ih: "run E (\<lambda>j. sched (Suc j)) (\<lambda>j. draws (Suc (i + j))) (map (heap s) xs) =
           (case r2 of Inl err \<Rightarrow> Inl err | Inr rs \<Rightarrow> Inr (map (heap s2) rs))"
      by (simp add: tl)
    have hd: "fst (remote_call E (sched 0) (draws i) (heap s x)) = Inr (heap s1 x)"
      by (rule pw(2))
    have keep: "heap s2 x = heap s1 x"
      by (rule sequential_run_frame [OF q x])
    show ?thesis
    proof (cases r2)
      case (Inl err)
      with Cons.prems(1) p q Inr have "res = Inl err" by simp
      with ih hd Inl show ?thesis by (simp add: run_Cons comp_def)
    next
      case (Inr rs)
      with Cons.prems(1) p q \<open>r1 = Inr a'\<close> pw(1) have "res = Inr (x # rs)" "s' = s2" by simp_all
      with ih hd Inr keep show ?thesis by (simp add: run_Cons comp_def)
    qed
  qed
qed

lemma sequential_run_ENGINES_stable:
  assumes "sequential_run ENGINES w draws i refs s = (res, s')"
    and "heap s a ''output'' = Some ''_results_''"
  shows "heap s' a = heap s a"
  using assms
proof (induction refs arbitrary: i s res s')
  case Nil
  then show ?case by simp
next
  case (Cons x xs)
  obtain r1 s1 where p: "perform_work ENGINES w (draws i) x s = (r1, s1)"
    by (cases "perform_work ENGINES w (draws i) x s")
  show ?case
  proof (cases r1)
    case (Inl err)
    with Cons.prems p have "s' = s1" by simp
    with perform_work_Inl(2) [OF p [unfolded Inl]] show ?thesis by simp
  next
    case (Inr a')
    note pw = perform_work_Inr [OF p [unfolded Inr]]
    obtain r2 s2 where q: "sequential_run ENGINES w draws (Suc i) xs s1 = (r2, s2)"
      by (cases "sequential_run ENGINES w draws (Suc i) xs s1")
    from Cons.prems p q Inr have s': "s' = s2" by (auto split: sum.splits)
    have x: "heap s1 x = (heap s x)(''output'' \<mapsto> ''_results_'')"
      using remote_call_ENGINES_Inr [OF pw(2)] .
    have same: "heap s1 a = heap s a"
    proof (cases "a = x")
      case True
      with x Cons.prems(2) show ?thesis by (simp add: map_upd_triv)
    next
      case False
      with pw(3) show ?thesis by (metis fun_upd_other)
    qed
    with Cons.prems(2) have "heap s1 a ''output'' = Some ''_results_''" by simp
    from Cons.IH [OF q this] same s' show ?thesis by simp
  qed
qed

lemma sequential_run_ENGINES:
  assumes "sequential_run ENGINES w draws i refs s = (res, s')"
  shows "run ENGINES sched draws' (map (heap s) refs) =
           (case res of Inl err \<Rightarrow> Inl err | Inr rs \<Rightarrow> Inr (map (heap s') rs))"
  using assms
proof (induction refs arbitrary: i s res s' sched draws')
  case Nil
  then show ?case by (auto simp: run_Nil)
next
  case (Cons x xs)
  obtain r1 s1 where p: "perform_work ENGINES w (draws i) x s = (r1, s1)"
    by (cases "perform_work ENGINES w (draws i) x s")
  show ?case
  proof (cases r1)
    case (Inl err)
    with Cons.prems p have res: "res = Inl err" by simp
    from perform_work_Inl(1) [OF p [unfolded Inl], of "sched 0"]
    have "fst (remote_call ENGINES (sched 0) (draws' 0) (heap s x)) = Inl err"
      using remote_call_ENGINES_indep by metis
    then show ?thesis by (simp add: run_Cons res)
  next
    case (Inr a')
    note pw = perform_work_Inr [OF p [unfolded Inr]]
    obtain r2 s2 where q: "sequential_run ENGINES w draws (Suc i) xs s1 = (r2, s2)"
      by (cases "sequential_run ENGINES w draws (Suc i) xs s1")
    have x: "heap s1 x = (heap s x)(''output'' \<mapsto> ''_results_'')"
      using remote_call_ENGINES_Inr [OF pw(2)] .
    have hd: "fst (remote_call ENGINES (sched 0) (draws' 0) (heap s x)) = Inr (heap s1 x)"
      using pw(2) remote_call_ENGINES_indep by metis
    have "run ENGINES sched draws' (map (heap s1) xs) =
          run ENGINES (sched \<circ> Suc) (draws' \<circ> Suc) (map (heap s) xs)"
    proof (rule run_ENGINES_cong)
      show "length (map (heap s1) xs) = length (map (heap s) xs)" by simp
    next
      fix j assume "j < length (map (heap s) xs)"
      then have j: "j < length xs" by simp
      show "map (heap s1) xs ! j = map (heap s) xs ! j \<or>
            map (heap s1) xs ! j = (map (heap s) xs ! j)(''output'' \<mapsto> ''_results_'')"
      proof (cases "xs ! j = x")
        case True
        with j x show ?thesis by simp
      next
        case False
        with pw(3) have "heap s1 (xs ! j) = heap s (xs ! j)" by (metis fun_upd_other)
        with j show ?thesis by simp
      qed
    qed
    with Cons.IH [OF q, of sched draws']
    have ih: "run ENGINES (sched \<circ> Suc) (draws' \<circ> Suc) (map (heap s) xs) =
           (case r2 of Inl err \<Rightarrow> Inl err | Inr rs \<Rightarrow> Inr (map (heap s2) rs))"
      by simp
    have "heap s1 x ''output'' = Some ''_results_''" by (simp add: x)
    from sequential_run_ENGINES_stable [OF q this] have keep: "heap s2 x = heap s1 x" .
    show ?thesis
    proof (cases r2)
      case (Inl err)
      with Cons.prems(1) p q Inr have "res = Inl err" by simp
      with ih hd Inl show ?thesis by (simp add: run_Cons)
    next
      case (Inr rs)
      with Cons.prems(1) p q \<open>r1 = Inr a'\<close> pw(1) have "res = Inr (x # rs)" "s' = s2" by simp_all
      with ih hd Inr keep show ?thesis by (simp add: run_Cons)
    qed
  qed
qed







section \<open>Properties\<close>

text \<open>
  C10. For an engine identifier among \<open>ILAMB\<close>, \<open>PMP\<close> and \<open>ESMValTool\<close> and any
  benchmark identifier, \<open>perform_work\<close> on the work item of that engine and benchmark
  succeeds; the result is the work item with the field \<open>output\<close> equal to
  \<open>"_results_"\<close>, and it has no field \<open>error\<close>. The three registered engines return
  \<open>"_results_"\<close> whatever their arguments are.
\<close>

theorem registered_engines_constant:
  assumes "e \<in> {''ILAMB'', ''PMP'', ''ESMValTool''}" and "heap s a = work_item e b"
  shows "(\<exists>f. ENGINES e = Some f \<and> (\<forall>r' b'. f r' b' = Inr ''_results_'')) \<and>
         fst (perform_work ENGINES w r a s) = Inr a \<and>
         heap (snd (perform_work ENGINES w r a s)) a =
           [''engine'' \<mapsto> e, ''benchmark'' \<mapsto> b, ''output'' \<mapsto> ''_results_''] \<and>
         heap (snd (perform_work ENGINES w r a s)) a ''error'' = None"
proof -
  from assms(1) have reg: "\<exists>f. ENGINES e = Some f \<and> (\<forall>r' b'. f r' b' = Inr ''_results_'')"
    by (auto simp: ENGINES_def engine_ilamb_def engine_pmp_def engine_esmvaltool_def)
  then obtain f where f: "ENGINES e = Some f" "\<And>r' b'. f r' b' = Inr ''_results_''"
    by blast
  have keys: "heap s a ''benchmark'' = Some b" "heap s a ''engine'' = Some e"
    by (simp_all add: assms(2) work_item_def)
  have "perform_work ENGINES w r a s =
          (Inr a, s\<lparr>stdout := stdout s @ [trace_line b e (w_rank w) (w_size w) (w_name w)],
                     heap := (heap s)(a := (heap s a)(''output'' \<mapsto> ''_results_''))\<rparr>)"
    by (simp add: perform_work_def keys f Let_def)
  with reg show ?thesis
    by (simp add: assms(2) work_item_def)
qed

theorem registered_engines_constant_witness:
  "''PMP'' \<in> {''ILAMB'', ''PMP'', ''ESMValTool''} \<and>
   heap (fresh_proc (work_item ''PMP'' ''AMOC'')) 0 = work_item ''PMP'' ''AMOC'' \<and>
   fst (perform_work ENGINES worker0 0 0 (fresh_proc (work_item ''PMP'' ''AMOC''))) = Inr 0 \<and>
   heap (snd (perform_work ENGINES worker0 0 0 (fresh_proc (work_item ''PMP'' ''AMOC'')))) 0 ''output''
     = Some ''_results_''"
  using registered_engines_constant [of "''PMP''" "fresh_proc (work_item ''PMP'' ''AMOC'')" 0 "''AMOC''" worker0 0]
  by (simp add: fresh_proc_def)



text \<open>
  C3, as the specification states it: when the engine raises, \<open>perform_work\<close> returns a
  result that wraps the fault. The code has no handler: with a table whose engine
  raises, \<open>perform_work\<close> ends with the engine's exception and returns nothing.
\<close>

theorem engine_fault_counterexample:
  "fst (perform_work FAULTY worker0 0 0 (fresh_proc (work_item ''BOOM'' ''x''))) =
     Inl (EngineFault ''boom'') \<and>
   \<not> (\<exists>res. fst (perform_work FAULTY worker0 0 0 (fresh_proc (work_item ''BOOM'' ''x''))) = Inr res)"
  by (simp add: perform_work_def fresh_proc_def work_item_def FAULTY_def engine_boom_def Let_def)

text \<open>
  C3, amended. When the engine of a work item raises, \<open>perform_work\<close> returns no result:
  the engine's exception leaves \<open>perform_work\<close> unchanged, after the trace line has
  been written and with the work item untouched. No engine of \<open>ENGINES\<close> raises.
\<close>

theorem engine_fault_propagates:
  assumes "heap s a ''benchmark'' = Some b" and "heap s a ''engine'' = Some e"
    and "E e = Some f" and "f r b = Inl err"
  shows "perform_work E w r a s =
           (Inl err, s\<lparr>stdout := stdout s @ [trace_line b e (w_rank w) (w_size w) (w_name w)]\<rparr>) \<and>
         (\<forall>e' f' r' b'. ENGINES e' = Some f' \<longrightarrow> (\<exists>out. f' r' b' = Inr out))"
proof
  show "perform_work E w r a s =
           (Inl err, s\<lparr>stdout := stdout s @ [trace_line b e (w_rank w) (w_size w) (w_name w)]\<rparr>)"
    by (simp add: perform_work_cases [OF assms(1,2)] assms(3,4))
  show "\<forall>e' f' r' b'. ENGINES e' = Some f' \<longrightarrow> (\<exists>out. f' r' b' = Inr out)"
    by (auto simp: ENGINES_def engine_ilamb_def engine_pmp_def engine_esmvaltool_def
             split: if_splits)
qed

theorem engine_fault_propagates_witness:
  "heap (fresh_proc (work_item ''BOOM'' ''x'')) 0 ''benchmark'' = Some ''x'' \<and>
   heap (fresh_proc (work_item ''BOOM'' ''x'')) 0 ''engine'' = Some ''BOOM'' \<and>
   FAULTY ''BOOM'' = Some engine_boom \<and>
   engine_boom 0 ''x'' = Inl (EngineFault ''boom'') \<and>
   fst (perform_work FAULTY worker0 0 0 (fresh_proc (work_item ''BOOM'' ''x''))) =
     Inl (EngineFault ''boom'') \<and>
   heap (snd (perform_work FAULTY worker0 0 0 (fresh_proc (work_item ''BOOM'' ''x'')))) 0 =
     work_item ''BOOM'' ''x''"
proof -
  have k: "heap (fresh_proc (work_item ''BOOM'' ''x'')) 0 ''benchmark'' = Some ''x''"
          "heap (fresh_proc (work_item ''BOOM'' ''x'')) 0 ''engine'' = Some ''BOOM''"
    by (simp_all add: fresh_proc_def work_item_def)
  have g: "FAULTY ''BOOM'' = Some engine_boom" by (simp add: FAULTY_def)
  have h: "engine_boom 0 ''x'' = Inl (EngineFault ''boom'')" by (simp add: engine_boom_def)
  have d: "heap (fresh_proc (work_item ''BOOM'' ''x'')) 0 = work_item ''BOOM'' ''x''"
    by (simp add: fresh_proc_def)
  show ?thesis
    using engine_fault_propagates [where s = "fresh_proc (work_item ''BOOM'' ''x'')" and a = 0
            and b = "''x''" and e = "''BOOM''" and E = FAULTY and f = engine_boom and r = 0
            and err = "EngineFault ''boom''" and w = worker0] k g h d
    by simp
qed

text \<open>
  C2, as the specification states it: a work item whose engine is not registered yields
  a result carrying an error, and the other items complete normally. In the code the
  subscript of \<open>ENGINES\<close> raises \<open>KeyError\<close>; \<open>perform_work\<close> returns nothing, and
  listing the results of the run re-raises the exception, so the caller gets no result
  of any item.
\<close>

theorem unknown_engine_counterexample:
  "run ENGINES (const_sched worker0) zero_draws
       [work_item ''PMP'' ''AMOC'', work_item ''ILAMB'' ''nbp'', work_item ''UNKNOWN'' ''x'']
     = Inl (KeyError ''UNKNOWN'') \<and>
   fst (perform_work ENGINES worker0 0 0 (fresh_proc (work_item ''UNKNOWN'' ''x''))) =
     Inl (KeyError ''UNKNOWN'')"
  by (simp add: run_Cons run_Nil remote_call_fst perform_work_def fresh_proc_def work_item_def
        ENGINES_def engine_pmp_def engine_ilamb_def Let_def)

text \<open>
  C2, amended. For a work item whose engine identifier is not a key of the table,
  \<open>perform_work\<close> ends with \<open>KeyError\<close> of that identifier, after the trace line has
  been written and with the store unchanged; a run whose work list contains such an
  item ends with an exception and returns no result list.
\<close>

theorem unknown_engine_raises:
  assumes "d ''benchmark'' = Some b" and "d ''engine'' = Some e" and "E e = None"
  shows "(heap s a = d \<longrightarrow>
            perform_work E w r a s =
              (Inl (KeyError e),
               s\<lparr>stdout := stdout s @ [trace_line b e (w_rank w) (w_size w) (w_name w)]\<rparr>)) \<and>
         (d \<in> set items \<longrightarrow> (\<exists>err. run E sched draws items = Inl err))"
proof (intro conjI impI)
  assume "heap s a = d"
  with assms show "perform_work E w r a s =
              (Inl (KeyError e),
               s\<lparr>stdout := stdout s @ [trace_line b e (w_rank w) (w_size w) (w_name w)]\<rparr>)"
    by (simp add: perform_work_cases)
next
  assume "d \<in> set items"
  then obtain i where i: "i < length items" "items ! i = d"
    by (auto simp: in_set_conv_nth)
  have "run E sched draws items \<noteq> Inr rs" for rs
  proof
    assume "run E sched draws items = Inr rs"
    from run_Inr_nth [OF this i(1)] i(2) assms show False by auto
  qed
  then show "\<exists>err. run E sched draws items = Inl err"
    by (rule run_Inl_if_not_Inr)
qed

theorem unknown_engine_raises_witness:
  "work_item ''UNKNOWN'' ''x'' ''benchmark'' = Some ''x'' \<and>
   work_item ''UNKNOWN'' ''x'' ''engine'' = Some ''UNKNOWN'' \<and>
   ENGINES ''UNKNOWN'' = None \<and>
   heap (fresh_proc (work_item ''UNKNOWN'' ''x'')) 0 = work_item ''UNKNOWN'' ''x'' \<and>
   work_item ''UNKNOWN'' ''x'' \<in> set [work_item ''PMP'' ''AMOC'', work_item ''UNKNOWN'' ''x''] \<and>
   fst (perform_work ENGINES worker0 0 0 (fresh_proc (work_item ''UNKNOWN'' ''x''))) =
     Inl (KeyError ''UNKNOWN'') \<and>
   (\<exists>err. run ENGINES (const_sched worker0) zero_draws
             [work_item ''PMP'' ''AMOC'', work_item ''UNKNOWN'' ''x''] = Inl err)"
proof -
  have k: "work_item ''UNKNOWN'' ''x'' ''benchmark'' = Some ''x''"
          "work_item ''UNKNOWN'' ''x'' ''engine'' = Some ''UNKNOWN''"
    by (simp_all add: work_item_def)
  have g: "ENGINES ''UNKNOWN'' = None" by (simp add: ENGINES_def)
  have d: "heap (fresh_proc (work_item ''UNKNOWN'' ''x'')) 0 = work_item ''UNKNOWN'' ''x''"
    by (simp add: fresh_proc_def)
  have m: "work_item ''UNKNOWN'' ''x'' \<in> set [work_item ''PMP'' ''AMOC'', work_item ''UNKNOWN'' ''x'']"
    by simp
  show ?thesis
    using unknown_engine_raises [where d = "work_item ''UNKNOWN'' ''x''" and b = "''x''"
            and e = "''UNKNOWN''" and E = ENGINES
            and s = "fresh_proc (work_item ''UNKNOWN'' ''x'')" and a = 0 and w = worker0 and r = 0
            and items = "[work_item ''PMP'' ''AMOC'', work_item ''UNKNOWN'' ''x'']"
            and sched = "const_sched worker0" and draws = zero_draws]
          k g d m
    by simp
qed

text \<open>
  C5, as the specification states it: the work item is never changed and the result is
  a separate value. In the code \<open>perform_work\<close> adds the field \<open>output\<close> to the
  dictionary it was given and returns that same dictionary.
\<close>

theorem perform_work_mutates_counterexample:
  "heap (fresh_proc (work_item ''PMP'' ''AMOC'')) 0 ''output'' = None \<and>
   fst (perform_work ENGINES worker0 0 0 (fresh_proc (work_item ''PMP'' ''AMOC''))) = Inr 0 \<and>
   heap (snd (perform_work ENGINES worker0 0 0 (fresh_proc (work_item ''PMP'' ''AMOC'')))) 0 ''output''
     = Some ''_results_'' \<and>
   heap (snd (perform_work ENGINES worker0 0 0 (fresh_proc (work_item ''PMP'' ''AMOC'')))) 0
     \<noteq> heap (fresh_proc (work_item ''PMP'' ''AMOC'')) 0"
proof -
  have 1: "heap (fresh_proc (work_item ''PMP'' ''AMOC'')) 0 ''output'' = None"
    by (simp add: fresh_proc_def work_item_def)
  have 2: "fst (perform_work ENGINES worker0 0 0 (fresh_proc (work_item ''PMP'' ''AMOC''))) = Inr 0"
    by (simp add: perform_work_def fresh_proc_def work_item_def ENGINES_def engine_pmp_def Let_def)
  have 3: "heap (snd (perform_work ENGINES worker0 0 0 (fresh_proc (work_item ''PMP'' ''AMOC'')))) 0 ''output''
     = Some ''_results_''"
    by (simp add: perform_work_def fresh_proc_def work_item_def ENGINES_def engine_pmp_def Let_def)
  from 1 3 have 4: "heap (snd (perform_work ENGINES worker0 0 0 (fresh_proc (work_item ''PMP'' ''AMOC'')))) 0
     \<noteq> heap (fresh_proc (work_item ''PMP'' ''AMOC'')) 0"
    by (metis option.distinct(1))
  from 1 2 3 4 show ?thesis by blast
qed

text \<open>
  C5, amended. \<open>perform_work\<close> changes no other object and no field of the work item
  other than \<open>output\<close> (engine and benchmark stay as submitted). When it succeeds, the
  result is the work item itself, with the field \<open>output\<close> written into it; when it
  raises, the store is unchanged.
\<close>

theorem perform_work_frame:
  assumes "perform_work E w r a s = (res, s')"
  shows "(\<forall>a'. a' \<noteq> a \<longrightarrow> heap s' a' = heap s a') \<and>
         (\<forall>k. k \<noteq> ''output'' \<longrightarrow> heap s' a k = heap s a k) \<and>
         (\<forall>a'. res = Inr a' \<longrightarrow> a' = a \<and> heap s' a ''output'' \<noteq> None) \<and>
         (\<forall>err. res = Inl err \<longrightarrow> heap s' = heap s)"
  using assms
  by (auto simp: perform_work_def Let_def split: option.splits sum.splits)

theorem perform_work_frame_witness:
  "perform_work ENGINES worker0 0 0 (fresh_proc (work_item ''PMP'' ''AMOC'')) =
     (Inr 0, \<lparr>heap = (\<lambda>_. Map.empty)(0 := (work_item ''PMP'' ''AMOC'')(''output'' \<mapsto> ''_results_'')),
              stdout = [trace_line ''AMOC'' ''PMP'' (w_rank worker0) (w_size worker0) (w_name worker0)]\<rparr>) \<and>
   ((work_item ''PMP'' ''AMOC'')(''output'' \<mapsto> ''_results_'')) ''engine'' = Some ''PMP'' \<and>
   ((work_item ''PMP'' ''AMOC'')(''output'' \<mapsto> ''_results_'')) ''benchmark'' = Some ''AMOC''"
proof -
  have p: "perform_work ENGINES worker0 0 0 (fresh_proc (work_item ''PMP'' ''AMOC'')) =
     (Inr 0, \<lparr>heap = (\<lambda>_. Map.empty)(0 := (work_item ''PMP'' ''AMOC'')(''output'' \<mapsto> ''_results_'')),
              stdout = [trace_line ''AMOC'' ''PMP'' (w_rank worker0) (w_size worker0) (w_name worker0)]\<rparr>)"
    by (simp add: perform_work_def fresh_proc_def work_item_def ENGINES_def engine_pmp_def Let_def)
  show ?thesis
    using perform_work_frame [OF p] p
    by (simp add: fresh_proc_def work_item_def)
qed

text \<open>
  C1, as the specification states it: whenever no worker is lost, the run returns one
  result per work item. No worker is lost in the run below, and yet it returns no
  result at all: the exception of the unregistered engine ends it.
\<close>

theorem run_count_counterexample:
  "run ENGINES (const_sched worker0) zero_draws [work_item ''UNKNOWN'' ''x'']
     = Inl (KeyError ''UNKNOWN'') \<and>
   \<not> (\<exists>rs. run ENGINES (const_sched worker0) zero_draws [work_item ''UNKNOWN'' ''x''] = Inr rs
           \<and> length rs = length [work_item ''UNKNOWN'' ''x''])"
  by (simp add: run_Cons run_Nil remote_call_fst work_item_def ENGINES_def)

text \<open>
  C1, amended. For every work list, repeated entries included, a run that returns a
  result list returns exactly one result per submitted work item, and the run does
  return one whenever every entry is a work item whose engine identifier is a key of
  \<open>ENGINES\<close>. Repeated entries give one result each.
\<close>

theorem run_count:
  "(run E sched draws items = Inr rs \<longrightarrow> length rs = length items) \<and>
   (list_all (registered ENGINES) items \<longrightarrow>
      (\<exists>rs'. run ENGINES sched draws items = Inr rs' \<and> length rs' = length items))"
proof (intro conjI impI)
  assume "run E sched draws items = Inr rs"
  then show "length rs = length items" by (rule run_Inr_length)
next
  assume "list_all (registered ENGINES) items"
  then have "run ENGINES sched draws items = Inr (map (\<lambda>d. d(''output'' \<mapsto> ''_results_'')) items)"
    by (rule run_ENGINES_registered)
  then show "\<exists>rs'. run ENGINES sched draws items = Inr rs' \<and> length rs' = length items"
    by simp
qed

theorem run_count_witness:
  "list_all (registered ENGINES) (replicate 20 (work_item ''PMP'' ''AMOC'')) \<and>
   run ENGINES (const_sched worker0) zero_draws (replicate 20 (work_item ''PMP'' ''AMOC'')) =
     Inr (replicate 20 ((work_item ''PMP'' ''AMOC'')(''output'' \<mapsto> ''_results_''))) \<and>
   length (replicate 20 ((work_item ''PMP'' ''AMOC'')(''output'' \<mapsto> ''_results_''))) =
     length (replicate 20 (work_item ''PMP'' ''AMOC'')) \<and>
   (\<exists>rs'. run ENGINES (const_sched worker0) zero_draws (replicate 20 (work_item ''PMP'' ''AMOC''))
            = Inr rs' \<and> length rs' = 20)"
proof -
  have reg: "registered ENGINES (work_item ''PMP'' ''AMOC'')"
    by (simp add: registered_def work_item_def ENGINES_def)
  then have all: "list_all (registered ENGINES) (replicate 20 (work_item ''PMP'' ''AMOC''))"
    by (simp add: list_all_iff)
  have r: "run ENGINES (const_sched worker0) zero_draws (replicate 20 (work_item ''PMP'' ''AMOC'')) =
     Inr (replicate 20 ((work_item ''PMP'' ''AMOC'')(''output'' \<mapsto> ''_results_'')))"
    unfolding run_Inr_iff
    by (simp add: remote_call_ENGINES_registered [OF reg])
  show ?thesis
    using run_count [where E = ENGINES and sched = "const_sched worker0" and draws = zero_draws
            and items = "replicate 20 (work_item ''PMP'' ''AMOC'')"
            and rs = "replicate 20 ((work_item ''PMP'' ''AMOC'')(''output'' \<mapsto> ''_results_''))"]
          all r
    by simp
qed

text \<open>
  C4. In every run that returns a result list, the multiset of (engine, benchmark)
  pairs of the results is the multiset of the pairs of the submitted work items, and
  every result carries the fields of the work item at its position, all but \<open>output\<close>
  unchanged.
\<close>

theorem run_pairs:
  assumes "run E sched draws items = Inr rs"
  shows "mset (map pair_of rs) = mset (map pair_of items) \<and>
         length rs = length items \<and>
         (\<forall>i<length items. \<forall>k. k \<noteq> ''output'' \<longrightarrow> (rs ! i) k = (items ! i) k)"
proof -
  have len: "length rs = length items"
    using assms by (rule run_Inr_length)
  have fields: "(rs ! i) k = (items ! i) k" if "i < length items" "k \<noteq> ''output''" for i k
    using assms that by (rule run_Inr_fields)
  have "map pair_of rs = map pair_of items"
  proof (rule nth_equalityI)
    show "length (map pair_of rs) = length (map pair_of items)" by (simp add: len)
  next
    fix i assume "i < length (map pair_of rs)"
    then have i: "i < length items" by (simp add: len)
    then show "map pair_of rs ! i = map pair_of items ! i"
      by (simp add: len pair_of_def fields)
  qed
  then have "mset (map pair_of rs) = mset (map pair_of items)" by simp
  with len fields show ?thesis by blast
qed

theorem run_pairs_witness:
  "run ENGINES (const_sched worker0) zero_draws
      [work_item ''PMP'' ''AMOC'', work_item ''ILAMB'' ''nbp'', work_item ''PMP'' ''AMOC''] =
     Inr [(work_item ''PMP'' ''AMOC'')(''output'' \<mapsto> ''_results_''),
          (work_item ''ILAMB'' ''nbp'')(''output'' \<mapsto> ''_results_''),
          (work_item ''PMP'' ''AMOC'')(''output'' \<mapsto> ''_results_'')] \<and>
   mset (map pair_of [(work_item ''PMP'' ''AMOC'')(''output'' \<mapsto> ''_results_''),
          (work_item ''ILAMB'' ''nbp'')(''output'' \<mapsto> ''_results_''),
          (work_item ''PMP'' ''AMOC'')(''output'' \<mapsto> ''_results_'')]) =
     {# (Some ''PMP'', Some ''AMOC''), (Some ''ILAMB'', Some ''nbp''), (Some ''PMP'', Some ''AMOC'') #}"
proof -
  have all: "list_all (registered ENGINES)
      [work_item ''PMP'' ''AMOC'', work_item ''ILAMB'' ''nbp'', work_item ''PMP'' ''AMOC'']"
    by (simp add: registered_def work_item_def ENGINES_def)
  have r: "run ENGINES (const_sched worker0) zero_draws
      [work_item ''PMP'' ''AMOC'', work_item ''ILAMB'' ''nbp'', work_item ''PMP'' ''AMOC''] =
     Inr [(work_item ''PMP'' ''AMOC'')(''output'' \<mapsto> ''_results_''),
          (work_item ''ILAMB'' ''nbp'')(''output'' \<mapsto> ''_results_''),
          (work_item ''PMP'' ''AMOC'')(''output'' \<mapsto> ''_results_'')]"
    using run_ENGINES_registered [OF all] by simp
  have p: "map pair_of [work_item ''PMP'' ''AMOC'', work_item ''ILAMB'' ''nbp'', work_item ''PMP'' ''AMOC'']
     = [(Some ''PMP'', Some ''AMOC''), (Some ''ILAMB'', Some ''nbp''), (Some ''PMP'', Some ''AMOC'')]"
    by (simp add: pair_of_def work_item_def)
  show ?thesis
    using run_pairs [OF r] r unfolding p by simp
qed

text \<open>
  C9. When every entry of the work list is a work item with a registered engine, the
  run returns a result list in submission order: the i-th result is the i-th work item
  with the field \<open>output\<close> added, so it has the engine and the benchmark of the i-th
  work item.
\<close>

theorem run_preserves_order:
  assumes "list_all (registered ENGINES) items"
  shows "\<exists>rs. run ENGINES sched draws items = Inr rs \<and> length rs = length items \<and>
           (\<forall>i<length items. rs ! i = (items ! i)(''output'' \<mapsto> ''_results_'') \<and>
                               pair_of (rs ! i) = pair_of (items ! i))"
proof -
  let ?rs = "map (\<lambda>d. d(''output'' \<mapsto> ''_results_'')) items"
  have "run ENGINES sched draws items = Inr ?rs"
    using assms by (rule run_ENGINES_registered)
  moreover have "length ?rs = length items" by simp
  moreover have "\<forall>i<length items. ?rs ! i = (items ! i)(''output'' \<mapsto> ''_results_'') \<and>
                               pair_of (?rs ! i) = pair_of (items ! i)"
    by (simp add: pair_of_def)
  ultimately show ?thesis by blast
qed

theorem run_preserves_order_witness:
  "list_all (registered ENGINES) [work_item ''ESMValTool'' ''TCRE'', work_item ''PMP'' ''AMOC''] \<and>
   (\<exists>rs. run ENGINES (const_sched worker0) half_draws
            [work_item ''ESMValTool'' ''TCRE'', work_item ''PMP'' ''AMOC''] = Inr rs \<and>
         length rs = 2 \<and>
         rs ! 0 = (work_item ''ESMValTool'' ''TCRE'')(''output'' \<mapsto> ''_results_'') \<and>
         rs ! 1 = (work_item ''PMP'' ''AMOC'')(''output'' \<mapsto> ''_results_''))"
proof -
  have all: "list_all (registered ENGINES) [work_item ''ESMValTool'' ''TCRE'', work_item ''PMP'' ''AMOC'']"
    by (simp add: registered_def work_item_def ENGINES_def)
  from run_preserves_order [OF all, of "const_sched worker0" half_draws]
  obtain rs where rs: "run ENGINES (const_sched worker0) half_draws
            [work_item ''ESMValTool'' ''TCRE'', work_item ''PMP'' ''AMOC''] = Inr rs"
      "length rs = 2"
      "\<forall>i<2. rs ! i = ([work_item ''ESMValTool'' ''TCRE'', work_item ''PMP'' ''AMOC''] ! i)(''output'' \<mapsto> ''_results_'')"
    by auto
  from rs(3) have "rs ! 0 = (work_item ''ESMValTool'' ''TCRE'')(''output'' \<mapsto> ''_results_'')"
    "rs ! 1 = (work_item ''PMP'' ''AMOC'')(''output'' \<mapsto> ''_results_'')"
    by (force, force)
  with rs(1,2) all show ?thesis by blast
qed

text \<open>
  C8. Running the same work list twice, whatever workers take the items and whatever
  the engines draw, gives the same outcome with \<open>ENGINES\<close>; and for any two tables, two
  runs that both return a result list return lists of the same composition of engine,
  benchmark and kind, whatever the output values are.
\<close>

theorem rerun_same_composition:
  "run ENGINES sched1 draws1 items = run ENGINES sched2 draws2 items \<and>
   (run E1 sched1 draws1 items = Inr rs1 \<longrightarrow> run E2 sched2 draws2 items = Inr rs2 \<longrightarrow>
      composition rs1 = composition rs2)"
proof (intro conjI impI)
  show "run ENGINES sched1 draws1 items = run ENGINES sched2 draws2 items"
    by (rule run_ENGINES_indep)
next
  assume r1: "run E1 sched1 draws1 items = Inr rs1" and r2: "run E2 sched2 draws2 items = Inr rs2"
  let ?t = "\<lambda>d::dict. (d ''engine'', d ''benchmark'', kind_of d)"
  have t: "map ?t rs = map ?t items" if "run E sched draws items = Inr rs" for E sched draws rs
  proof (rule nth_equalityI)
    show "length (map ?t rs) = length (map ?t items)"
      using that by (simp add: run_Inr_length)
  next
    fix i assume "i < length (map ?t rs)"
    then have i: "i < length items" using that by (simp add: run_Inr_length)
    have "(rs ! i) ''engine'' = (items ! i) ''engine''"
         "(rs ! i) ''benchmark'' = (items ! i) ''benchmark''"
         "(rs ! i) ''error'' = (items ! i) ''error''"
      using run_Inr_fields [OF that i] by simp_all
    then show "map ?t rs ! i = map ?t items ! i"
      using i that by (simp add: run_Inr_length kind_of_def)
  qed
  show "composition rs1 = composition rs2"
    unfolding composition_def t [OF r1] t [OF r2] ..
qed

theorem rerun_same_composition_witness:
  "run ENGINES (const_sched worker0) zero_draws [work_item ''PMP'' ''AMOC'', work_item ''ILAMB'' ''nbp''] =
     Inr [(work_item ''PMP'' ''AMOC'')(''output'' \<mapsto> ''_results_''),
          (work_item ''ILAMB'' ''nbp'')(''output'' \<mapsto> ''_results_'')] \<and>
   run ENGINES (const_sched (pool1 ''node'')) half_draws [work_item ''PMP'' ''AMOC'', work_item ''ILAMB'' ''nbp''] =
     Inr [(work_item ''PMP'' ''AMOC'')(''output'' \<mapsto> ''_results_''),
          (work_item ''ILAMB'' ''nbp'')(''output'' \<mapsto> ''_results_'')] \<and>
   composition [(work_item ''PMP'' ''AMOC'')(''output'' \<mapsto> ''_results_''),
          (work_item ''ILAMB'' ''nbp'')(''output'' \<mapsto> ''_results_'')] =
     {# (Some ''PMP'', Some ''AMOC'', Success), (Some ''ILAMB'', Some ''nbp'', Success) #}"
proof -
  have all: "list_all (registered ENGINES) [work_item ''PMP'' ''AMOC'', work_item ''ILAMB'' ''nbp'']"
    by (simp add: registered_def work_item_def ENGINES_def)
  have r: "run ENGINES sched draws [work_item ''PMP'' ''AMOC'', work_item ''ILAMB'' ''nbp''] =
     Inr [(work_item ''PMP'' ''AMOC'')(''output'' \<mapsto> ''_results_''),
          (work_item ''ILAMB'' ''nbp'')(''output'' \<mapsto> ''_results_'')]" for sched draws
    using run_ENGINES_registered [OF all] by simp
  have c: "composition [(work_item ''PMP'' ''AMOC'')(''output'' \<mapsto> ''_results_''),
          (work_item ''ILAMB'' ''nbp'')(''output'' \<mapsto> ''_results_'')] =
     {# (Some ''PMP'', Some ''AMOC'', Success), (Some ''ILAMB'', Some ''nbp'', Success) #}"
    by (simp add: composition_def kind_of_def work_item_def)
  show ?thesis
    using rerun_same_composition [where ?E1.0 = ENGINES and ?E2.0 = ENGINES
            and ?sched1.0 = "const_sched worker0" and ?draws1.0 = zero_draws
            and ?sched2.0 = "const_sched (pool1 ''node'')" and ?draws2.0 = half_draws
            and items = "[work_item ''PMP'' ''AMOC'', work_item ''ILAMB'' ''nbp'']"] r c
    by simp
qed

text \<open>
  C6. For every work list, the run over a pool of size one gives what calling
  \<open>perform_work\<close> on the entries one after the other, in submission order, gives: the
  same result contents in the same order, or the same exception. With \<open>ENGINES\<close> this
  holds for every list of references, also when the same dictionary is submitted more
  than once; for an arbitrary table it holds when the submitted dictionaries are
  distinct objects.
\<close>

theorem pool1_matches_sequential:
  "run ENGINES (const_sched (pool1 host)) draws (map (heap s) refs) =
     sequential_results ENGINES w draws refs s \<and>
   (distinct refs \<longrightarrow>
      run E (const_sched (pool1 host)) draws (map (heap s) refs) =
        sequential_results E w draws refs s)"
proof (intro conjI impI)
  obtain res s' where q: "sequential_run ENGINES w draws 0 refs s = (res, s')"
    by (cases "sequential_run ENGINES w draws 0 refs s")
  from sequential_run_ENGINES [OF q, of "const_sched (pool1 host)" draws]
  show "run ENGINES (const_sched (pool1 host)) draws (map (heap s) refs) =
     sequential_results ENGINES w draws refs s"
    by (simp add: sequential_results_def q split: sum.splits)
next
  assume d: "distinct refs"
  obtain res s' where q: "sequential_run E w draws 0 refs s = (res, s')"
    by (cases "sequential_run E w draws 0 refs s")
  from sequential_run_distinct [OF q d, of "const_sched (pool1 host)"]
  show "run E (const_sched (pool1 host)) draws (map (heap s) refs) =
        sequential_results E w draws refs s"
    by (simp add: sequential_results_def q split: sum.splits)
qed

theorem pool1_matches_sequential_witness:
  "distinct [0::nat, 1] \<and>
   run ENGINES (const_sched (pool1 ''node'')) zero_draws (map (heap store2) [0, 0, 1]) =
     Inr [(work_item ''PMP'' ''AMOC'')(''output'' \<mapsto> ''_results_''),
          (work_item ''PMP'' ''AMOC'')(''output'' \<mapsto> ''_results_''),
          (work_item ''ILAMB'' ''nbp'')(''output'' \<mapsto> ''_results_'')] \<and>
   sequential_results ENGINES (pool1 ''node'') zero_draws [0, 0, 1] store2 =
     Inr [(work_item ''PMP'' ''AMOC'')(''output'' \<mapsto> ''_results_''),
          (work_item ''PMP'' ''AMOC'')(''output'' \<mapsto> ''_results_''),
          (work_item ''ILAMB'' ''nbp'')(''output'' \<mapsto> ''_results_'')] \<and>
   run FAULTY (const_sched (pool1 ''node'')) zero_draws (map (heap store2) [0, 1]) =
     Inl (KeyError ''PMP'') \<and>
   sequential_results FAULTY (pool1 ''node'') zero_draws [0, 1] store2 = Inl (KeyError ''PMP'')"
proof -
  have h: "map (heap store2) [0, 0, 1] =
      [work_item ''PMP'' ''AMOC'', work_item ''PMP'' ''AMOC'', work_item ''ILAMB'' ''nbp'']"
    "map (heap store2) [0, 1] = [work_item ''PMP'' ''AMOC'', work_item ''ILAMB'' ''nbp'']"
    by (simp_all add: store2_def)
  have all: "list_all (registered ENGINES)
      [work_item ''PMP'' ''AMOC'', work_item ''PMP'' ''AMOC'', work_item ''ILAMB'' ''nbp'']"
    by (simp add: registered_def work_item_def ENGINES_def)
  have r: "run ENGINES (const_sched (pool1 ''node'')) zero_draws (map (heap store2) [0, 0, 1]) =
     Inr [(work_item ''PMP'' ''AMOC'')(''output'' \<mapsto> ''_results_''),
          (work_item ''PMP'' ''AMOC'')(''output'' \<mapsto> ''_results_''),
          (work_item ''ILAMB'' ''nbp'')(''output'' \<mapsto> ''_results_'')]"
    unfolding h using run_ENGINES_registered [OF all] by simp
  have f: "run FAULTY (const_sched (pool1 ''node'')) zero_draws (map (heap store2) [0, 1]) =
     Inl (KeyError ''PMP'')"
    unfolding h by (simp add: run_Cons remote_call_fst work_item_def FAULTY_def)
  have d: "distinct [0::nat, 1]" by simp
  show ?thesis
    using pool1_matches_sequential [where host = "''node''" and draws = zero_draws
            and s = store2 and refs = "[0, 0, 1]" and w = "pool1 ''node''"]
          pool1_matches_sequential [where host = "''node''" and draws = zero_draws
            and s = store2 and refs = "[0, 1]" and w = "pool1 ''node''" and E = FAULTY]
          r f d
    by simp
qed

end
